theory Spec2Isabelle
  imports Complex_Main
begin

section \<open>Generators of quantum objects (quijy/gen.py): Pauli matrices and the Heisenberg Hamiltonian\<close>

text \<open>
  The development embeds \<^verbatim>\<open>sig\<close> and \<^verbatim>\<open>ham_heis\<close> of \<^verbatim>\<open>src/quijy/gen.py\<close>.
  Matrix entries are exact complex numbers and the coupling constants exact reals: the
  rounding of machine floats is not part of the model. A matrix is the list of its rows;
  an operator carries, besides its rows, the storage format (sparse or dense) it is held in.
\<close>

subsection \<open>Values, errors, operators\<close>

text \<open>The arguments \<^verbatim>\<open>sig\<close> is compared against are Python integers and strings.\<close>

datatype pyval = PyInt int | PyStr string

text \<open>
  \<^verbatim>\<open>TypeError\<close>: an operand is \<^verbatim>\<open>None\<close>. \<^verbatim>\<open>ValueError\<close>: two matrices of
  different shapes are added or subtracted.
\<close>

datatype error = TypeError | ValueError

type_synonym mat = "complex list list"

record qobj =
  is_sparse :: bool
  rows :: mat

definition ebind :: "error + 'a \<Rightarrow> ('a \<Rightarrow> error + 'b) \<Rightarrow> error + 'b" where
  "ebind m f = (case m of Inl e \<Rightarrow> Inl e | Inr x \<Rightarrow> f x)"

text \<open>Using the result of a call that returned \<^verbatim>\<open>None\<close> as an operand raises.\<close>

definition need :: "'a option \<Rightarrow> error + 'a" where
  "need r = (case r of None \<Rightarrow> Inl TypeError | Some x \<Rightarrow> Inr x)"

definition shape :: "mat \<Rightarrow> nat \<times> nat" where
  "shape M = (length M, case M of [] \<Rightarrow> 0 | r # _ \<Rightarrow> length r)"

subsection \<open>Matrix arithmetic on rows\<close>

definition add_rows :: "mat \<Rightarrow> mat \<Rightarrow> mat" where
  "add_rows A B = map2 (map2 (+)) A B"

definition sub_rows :: "mat \<Rightarrow> mat \<Rightarrow> mat" where
  "sub_rows A B = map2 (map2 (-)) A B"

definition scale_rows :: "real \<Rightarrow> mat \<Rightarrow> mat" where
  "scale_rows c A = map (map (\<lambda>x. complex_of_real c * x)) A"

definition kron_rows :: "mat \<Rightarrow> mat \<Rightarrow> mat" where
  "kron_rows A B =
     concat (map (\<lambda>ra. map (\<lambda>rb. concat (map (\<lambda>x. map (\<lambda>y. x * y) rb) ra)) B) A)"

definition eye_rows :: "nat \<Rightarrow> mat" where
  "eye_rows d = map (\<lambda>i. map (\<lambda>j. if i = j then 1 else 0) [0..<d]) [0..<d]"

text \<open>The conjugate transpose of a matrix, and what it is to be Hermitian.\<close>

definition dagger :: "mat \<Rightarrow> mat" where
  "dagger M = map (\<lambda>j. map (\<lambda>i. cnj (M ! i ! j)) [0..<length M]) [0..<snd (shape M)]"

definition hermitian :: "mat \<Rightarrow> bool" where
  "hermitian M \<longleftrightarrow> dagger M = M"

text \<open>The four Pauli operators, as the glossary of the specification names them.\<close>

definition pauli_X :: mat where "pauli_X = [[0, 1], [1, 0]]"
definition pauli_Y :: mat where "pauli_Y = [[0, - \<i>], [\<i>, 0]]"
definition pauli_Z :: mat where "pauli_Z = [[1, 0], [0, - 1]]"
definition pauli_I :: mat where "pauli_I = [[1, 0], [0, 1]]"

subsection \<open>Operators of Python, numpy and scipy on matrices\<close>

text \<open>A real scalar times a matrix keeps the format of the matrix.\<close>

definition scale :: "real \<Rightarrow> qobj \<Rightarrow> qobj" where
  "scale c a = \<lparr>is_sparse = is_sparse a, rows = scale_rows c (rows a)\<rparr>"

text \<open>
  \<^verbatim>\<open>+\<close> and \<^verbatim>\<open>-\<close> raise on operands of different shapes; the result is sparse only
  when both operands are.
\<close>

definition qadd :: "qobj \<Rightarrow> qobj \<Rightarrow> error + qobj" where
  "qadd a b =
     (if shape (rows a) \<noteq> shape (rows b) then Inl ValueError
      else Inr \<lparr>is_sparse = is_sparse a \<and> is_sparse b, rows = add_rows (rows a) (rows b)\<rparr>)"

definition qsub :: "qobj \<Rightarrow> qobj \<Rightarrow> error + qobj" where
  "qsub a b =
     (if shape (rows a) \<noteq> shape (rows b) then Inl ValueError
      else Inr \<lparr>is_sparse = is_sparse a \<and> is_sparse b, rows = sub_rows (rows a) (rows b)\<rparr>)"

definition todense :: "qobj \<Rightarrow> qobj" where
  "todense a = \<lparr>is_sparse = False, rows = rows a\<rparr>"

text \<open>A slice \<^verbatim>\<open>xs[lo:hi]\<close>: negative bounds count from the end, and both are clipped.\<close>

definition py_slice :: "'a list \<Rightarrow> int \<Rightarrow> int \<Rightarrow> 'a list" where
  "py_slice xs lo hi =
     (let n = int (length xs);
          l = (if lo < 0 then max 0 (lo + n) else min lo n);
          h = (if hi < 0 then max 0 (hi + n) else min hi n)
      in take (nat (h - l)) (drop (nat l) xs))"

subsection \<open>The linear-algebra collaborator (quijy.core)\<close>

text \<open>
  Modelled from the spec: \<^verbatim>\<open>qonvert\<close> of \<^verbatim>\<open>quijy.core\<close>, which is not among the
  sources. The specification describes it as the conversion between the dense and the
  sparse representation: the nested list becomes an operator held in the requested format.
\<close>

definition qonvert :: "mat \<Rightarrow> bool \<Rightarrow> qobj" where
  "qonvert data sparse = \<lparr>is_sparse = sparse, rows = data\<rparr>"

text \<open>
  Modelled from the spec: \<^verbatim>\<open>eye\<close> of \<^verbatim>\<open>quijy.core\<close>, which is not among the sources:
  the identity operator of the given dimension, in the requested format.
\<close>

definition eye :: "nat \<Rightarrow> bool \<Rightarrow> qobj" where
  "eye d sparse = \<lparr>is_sparse = sparse, rows = eye_rows d\<rparr>"

text \<open>
  Modelled from the spec: \<^verbatim>\<open>kron\<close> of \<^verbatim>\<open>quijy.core\<close>, which is not among the sources:
  the Kronecker (tensor) product of two operators. The specification has the two-site block
  built in sparse form although one of its factors is \<^verbatim>\<open>eye(2)\<close>, so the product is
  sparse as soon as one factor is.
\<close>

definition kron :: "qobj \<Rightarrow> qobj \<Rightarrow> qobj" where
  "kron a b = \<lparr>is_sparse = is_sparse a \<or> is_sparse b, rows = kron_rows (rows a) (rows b)\<rparr>"

text \<open>
  Modelled from the spec: \<^verbatim>\<open>eyepad\<close> of \<^verbatim>\<open>quijy.core\<close>, which is not among the
  sources: embedding an operator into a larger tensor-product space at the given site
  position(s), with identity fill elsewhere. The operator is placed once for each listed
  position, in the order of the list; identity blocks cover the sites before the first
  position, the sites strictly between two consecutive positions and the sites after the
  last one. The dimensions recorded for the occupied positions themselves are not read,
  which is what lets \<^verbatim>\<open>ham_heis\<close> place the 4-dimensional two-site block in one slot of
  a chain that is one site shorter. The blocks are the slices \<^verbatim>\<open>dims[:i]\<close>,
  \<^verbatim>\<open>dims[i+1:j]\<close> and \<^verbatim>\<open>dims[j+1:]\<close> of the list of dimensions; an empty block is the
  identity of dimension 1. With no position at all, the result is the identity.
\<close>

fun eyepad_from :: "qobj \<Rightarrow> nat list \<Rightarrow> int \<Rightarrow> int list \<Rightarrow> qobj" where
  "eyepad_from a dims i [] =
     kron a (eye (prod_list (py_slice dims (i + 1) (int (length dims)))) (is_sparse a))"
| "eyepad_from a dims i (j # js) =
     kron a (kron (eye (prod_list (py_slice dims (i + 1) j)) (is_sparse a))
                  (eyepad_from a dims j js))"

fun eyepad :: "qobj \<Rightarrow> nat list \<Rightarrow> int list \<Rightarrow> qobj" where
  "eyepad a dims [] = eye (prod_list dims) (is_sparse a)"
| "eyepad a dims (i # js) =
     kron (eye (prod_list (py_slice dims 0 i)) (is_sparse a)) (eyepad_from a dims i js)"

subsection \<open>\<^verbatim>\<open>sig\<close>\<close>

definition sig :: "pyval \<Rightarrow> bool \<Rightarrow> qobj option" where
  "sig xyz sparse =
     (if xyz \<in> set [PyInt 1, PyStr ''x'', PyStr ''X''] then
        Some (qonvert [[0, 1], [1, 0]] sparse)
      else if xyz \<in> set [PyInt 2, PyStr ''y'', PyStr ''Y''] then
        Some (qonvert [[0, - \<i>], [\<i>, 0]] sparse)
      else if xyz \<in> set [PyInt 3, PyStr ''z'', PyStr ''Z''] then
        Some (qonvert [[1, 0], [0, - 1]] sparse)
      else if xyz \<in> set [PyInt 0, PyStr ''i'', PyStr ''I''] then
        Some (qonvert [[1, 0], [0, 1]] sparse)
      else None)"

subsection \<open>\<^verbatim>\<open>ham_heis\<close>\<close>

text \<open>The two-site block \<^verbatim>\<open>sds\<close> (lines 132 to 135).\<close>

definition sds_block :: "real \<Rightarrow> real \<Rightarrow> real \<Rightarrow> real \<Rightarrow> error + qobj" where
  "sds_block jx jy jz bz =
     ebind (need (sig (PyStr ''x'') True)) (\<lambda>x1.
     ebind (need (sig (PyStr ''x'') True)) (\<lambda>x2.
     ebind (need (sig (PyStr ''y'') True)) (\<lambda>y1.
     ebind (need (sig (PyStr ''y'') True)) (\<lambda>y2.
     ebind (qadd (scale jx (kron x1 x2)) (scale jy (kron y1 y2))) (\<lambda>t1.
     ebind (need (sig (PyStr ''z'') True)) (\<lambda>z1.
     ebind (need (sig (PyStr ''z'') True)) (\<lambda>z2.
     ebind (qadd t1 (scale jz (kron z1 z2))) (\<lambda>t2.
     ebind (need (sig (PyStr ''z'') True)) (\<lambda>z3.
     qsub t2 (scale bz (kron z3 (eye 2 False))))))))))))"

text \<open>The loop over \<^verbatim>\<open>range(n - 1)\<close> (lines 138 and 139).\<close>

fun heis_loop :: "qobj \<Rightarrow> nat list \<Rightarrow> qobj \<Rightarrow> int list \<Rightarrow> error + qobj" where
  "heis_loop sds dims ham [] = Inr ham"
| "heis_loop sds dims ham (i # is) =
     ebind (qadd ham (eyepad sds (butlast dims) [i])) (\<lambda>ham'. heis_loop sds dims ham' is)"

text \<open>The terms added when \<^verbatim>\<open>periodic\<close> is set (lines 140 to 143).\<close>

definition heis_periodic :: "int \<Rightarrow> nat list \<Rightarrow> qobj \<Rightarrow> error + qobj" where
  "heis_periodic n dims ham =
     ebind (need (sig (PyStr ''x'') True)) (\<lambda>sx.
     ebind (qadd ham (eyepad sx dims [0, n - 1])) (\<lambda>h1.
     ebind (need (sig (PyStr ''y'') True)) (\<lambda>sy.
     ebind (qadd h1 (eyepad sy dims [0, n - 1])) (\<lambda>h2.
     ebind (need (sig (PyStr ''z'') True)) (\<lambda>sz.
     qadd h2 (eyepad sz dims [0, n - 1]))))))"

text \<open>
  The whole function: the list of dimensions, the two-site block, the field term on the
  last site as the first value of the accumulator, the loop, the terms of the periodic
  chain, and the conversion to dense form when a sparse result is not asked for.
\<close>

definition ham_heis ::
  "int \<Rightarrow> real \<Rightarrow> real \<Rightarrow> real \<Rightarrow> real \<Rightarrow> bool \<Rightarrow> bool \<Rightarrow> error + qobj" where
  "ham_heis n jx jy jz bz periodic sparse =
     (let dims = replicate (nat n) (2::nat) in
      ebind (sds_block jx jy jz bz) (\<lambda>sds.
      ebind (need (sig (PyStr ''z'') True)) (\<lambda>sz.
      ebind (heis_loop sds dims (eyepad (scale (- bz) sz) dims [n - 1])
               (map int [0..<nat (n - 1)])) (\<lambda>ham.
      ebind (if periodic then heis_periodic n dims ham else Inr ham) (\<lambda>ham.
      Inr (if \<not> sparse then todense ham else ham))))))"

subsection \<open>Notions used to state the properties\<close>

text \<open>
  A square matrix that equals its conjugate transpose, entry by entry: every row is as long
  as the matrix has rows, and the entries at \<open>(i, j)\<close> and \<open>(j, i)\<close> are conjugate.
\<close>

definition herm :: "mat \<Rightarrow> bool" where
  "herm M \<longleftrightarrow> (\<forall>r\<in>set M. length r = length M) \<and>
     (\<forall>i<length M. \<forall>j<length M. M ! i ! j = cnj (M ! j ! i))"

text \<open>The invariant of the accumulator: Hermitian, of dimension \<open>d\<close>, held in sparse form.\<close>

definition good :: "nat \<Rightarrow> qobj \<Rightarrow> bool" where
  "good d a \<longleftrightarrow> herm (rows a) \<and> length (rows a) = d \<and> is_sparse a"

text \<open>A matrix with \<open>d\<close> rows of \<open>d\<close> entries each.\<close>

definition square :: "nat \<Rightarrow> mat \<Rightarrow> bool" where
  "square d M \<longleftrightarrow> length M = d \<and> list_all (\<lambda>r. length r = d) M"

text \<open>The rows of the two-site block: \<open>jx X\<otimes>X + jy Y\<otimes>Y + jz Z\<otimes>Z - bz Z\<otimes>I\<close>.\<close>

definition sds_rows :: "real \<Rightarrow> real \<Rightarrow> real \<Rightarrow> real \<Rightarrow> mat" where
  "sds_rows jx jy jz bz =
     sub_rows (add_rows (add_rows (scale_rows jx (kron_rows pauli_X pauli_X))
                                  (scale_rows jy (kron_rows pauli_Y pauli_Y)))
                        (scale_rows jz (kron_rows pauli_Z pauli_Z)))
              (scale_rows bz (kron_rows pauli_Z pauli_I))"

text \<open>
  The operator \<open>P\<close> on the first and on the last site of a chain of \<open>m\<close> sites, with the
  identity on the \<open>m - 2\<close> sites between them.
\<close>

definition boundary_term :: "nat \<Rightarrow> mat \<Rightarrow> mat" where
  "boundary_term m P = kron_rows P (kron_rows (eye_rows (2 ^ (m - 2))) P)"

section \<open>Properties\<close>

subsection \<open>Evaluation lemmas\<close>

lemma eye_rows_1: "eye_rows 1 = [[1]]"
  by (simp add: eye_rows_def)

lemma eye_rows_Suc0: "eye_rows (Suc 0) = [[1]]"
  by (simp add: eye_rows_def)

lemma eye_rows_2: "eye_rows 2 = [[1, 0], [0, 1]]"
  by code_simp

lemma kron_rows_one_left: "kron_rows [[1]] B = B"
proof -
  have "(*) (1::complex) = id"
    by auto
  then show ?thesis
    by (simp add: kron_rows_def)
qed

lemma kron_rows_one_right: "kron_rows A [[1]] = A"
  by (simp add: kron_rows_def)

lemma sig_x: "sig (PyStr ''x'') sp = Some \<lparr>is_sparse = sp, rows = pauli_X\<rparr>"
  by (simp add: sig_def qonvert_def pauli_X_def)

lemma sig_y: "sig (PyStr ''y'') sp = Some \<lparr>is_sparse = sp, rows = pauli_Y\<rparr>"
  by (simp add: sig_def qonvert_def pauli_Y_def)

lemma sig_z: "sig (PyStr ''z'') sp = Some \<lparr>is_sparse = sp, rows = pauli_Z\<rparr>"
  by (simp add: sig_def qonvert_def pauli_Z_def)

lemma sds_block_eq:
  "sds_block jx jy jz bz = Inr \<lparr>is_sparse = True, rows = sds_rows jx jy jz bz\<rparr>"
  by (simp add: sds_block_def sds_rows_def sig_x sig_y sig_z need_def ebind_def qadd_def
      qsub_def scale_def kron_def eye_def eye_rows_2 shape_def kron_rows_def pauli_X_def
      pauli_Y_def pauli_Z_def pauli_I_def scale_rows_def add_rows_def sub_rows_def)

subsection \<open>The Kronecker product, entry by entry\<close>

text \<open>
  The rows of a Kronecker product are a concatenation of equally long blocks, so its entry
  at \<open>(i, j)\<close> is the product of the entry of the left factor at
  \<open>(i div b, j div b)\<close> and of the right factor at \<open>(i mod b, j mod b)\<close>. The product
  of two Hermitian matrices is therefore Hermitian.
\<close>

lemma concat_nth_uniform:
  assumes "\<forall>x\<in>set xs. length (f x) = m" and "k < length xs * m"
  shows "concat (map f xs) ! k = f (xs ! (k div m)) ! (k mod m)"
  using assms
proof (induction xs arbitrary: k)
  case Nil
  then show ?case by simp
next
  case (Cons x xs)
  have m: "0 < m" using Cons.prems(2) by (cases m) auto
  show ?case
  proof (cases "k < m")
    case True
    with Cons.prems show ?thesis by (simp add: nth_append)
  next
    case False
    then have km: "m \<le> k" by simp
    have lt: "k - m < length xs * m" using Cons.prems(2) km by simp
    have d: "k div m = Suc ((k - m) div m)" using km m
      by (simp add: le_div_geq)
    have md: "k mod m = (k - m) mod m" using km
      by (simp add: le_mod_geq)
    have "concat (map f (x # xs)) ! k = concat (map f xs) ! (k - m)"
      using Cons.prems(1) False by (simp add: nth_append)
    also have "\<dots> = f (xs ! ((k - m) div m)) ! ((k - m) mod m)"
      using Cons.IH[OF _ lt] Cons.prems(1) by simp
    finally show ?thesis by (simp add: d md)
  qed
qed

lemma length_concat_uniform:
  "\<forall>x\<in>set xs. length (f x) = m \<Longrightarrow> length (concat (map f xs)) = length xs * m"
  by (induction xs) simp_all

lemma length_concat_map_map:
  "length (concat (map (\<lambda>x. map (g x) ys) xs)) = length xs * length ys"
  by (induction xs) simp_all

lemma length_kron_rows: "length (kron_rows A B) = length A * length B"
  by (simp add: kron_rows_def length_concat_uniform)

lemma kron_rows_row:
  assumes "i < length A * length B"
  shows "kron_rows A B ! i =
    concat (map (\<lambda>x. map (\<lambda>y. x * y) (B ! (i mod length B))) (A ! (i div length B)))"
proof -
  have "kron_rows A B ! i =
      map (\<lambda>rb. concat (map (\<lambda>x. map (\<lambda>y. x * y) rb) (A ! (i div length B)))) B ! (i mod length B)"
    unfolding kron_rows_def
    by (rule concat_nth_uniform) (use assms in simp_all)
  moreover have "i mod length B < length B"
    using assms by (cases "length B") auto
  ultimately show ?thesis by simp
qed

lemma kron_rows_entry:
  assumes "i < length A * length B" and "j < length (A ! (i div length B)) * c"
    and "length (B ! (i mod length B)) = c"
  shows "kron_rows A B ! i ! j =
     A ! (i div length B) ! (j div c) * B ! (i mod length B) ! (j mod c)"
proof -
  have c: "0 < c" using assms(2) by (cases c) auto
  have "kron_rows A B ! i ! j =
     map (\<lambda>y. (A ! (i div length B)) ! (j div c) * y) (B ! (i mod length B)) ! (j mod c)"
    unfolding kron_rows_row[OF assms(1)]
    by (rule concat_nth_uniform) (use assms in simp_all)
  then show ?thesis using c assms(3) by simp
qed

lemma div_mod_bounds:
  fixes i a b :: nat
  assumes "i < a * b"
  shows "i div b < a" and "i mod b < b"
proof -
  show "i div b < a"
    using assms by (rule less_mult_imp_div_less)
  have "0 < b"
    using assms by (cases b) simp_all
  then show "i mod b < b"
    by simp
qed

lemma hermI:
  assumes "\<And>i. i < length M \<Longrightarrow> length (M ! i) = length M"
    and "\<And>i j. i < length M \<Longrightarrow> j < length M \<Longrightarrow> M ! i ! j = cnj (M ! j ! i)"
  shows "herm M"
  unfolding herm_def
proof (intro conjI ballI allI impI)
  fix r assume "r \<in> set M"
  then obtain i where "i < length M" "r = M ! i"
    by (auto simp: in_set_conv_nth)
  then show "length r = length M"
    using assms(1) by simp
next
  fix i j assume "i < length M" "j < length M"
  then show "M ! i ! j = cnj (M ! j ! i)"
    by (rule assms(2))
qed

lemma herm_row: "herm M \<Longrightarrow> i < length M \<Longrightarrow> length (M ! i) = length M"
  unfolding herm_def by (meson nth_mem)

lemma herm_entry: "herm M \<Longrightarrow> i < length M \<Longrightarrow> j < length M \<Longrightarrow> M ! i ! j = cnj (M ! j ! i)"
  unfolding herm_def by blast

lemma herm_kron_rows:
  assumes A: "herm A" and B: "herm B"
  shows "herm (kron_rows A B)"
proof (rule hermI)
  fix i assume "i < length (kron_rows A B)"
  then have i: "i < length A * length B"
    by (simp add: length_kron_rows)
  show "length (kron_rows A B ! i) = length (kron_rows A B)"
    using herm_row[OF A div_mod_bounds(1)[OF i]] herm_row[OF B div_mod_bounds(2)[OF i]]
    by (simp add: kron_rows_row[OF i] length_concat_map_map length_kron_rows)
next
  fix i j assume "i < length (kron_rows A B)" "j < length (kron_rows A B)"
  then have i: "i < length A * length B" and j: "j < length A * length B"
    by (simp_all add: length_kron_rows)
  note bi = div_mod_bounds[OF i] and bj = div_mod_bounds[OF j]
  have e1: "kron_rows A B ! i ! j =
      A ! (i div length B) ! (j div length B) * B ! (i mod length B) ! (j mod length B)"
    by (rule kron_rows_entry[OF i, where c = "length B"])
       (simp_all add: herm_row[OF A bi(1)] herm_row[OF B bi(2)] j)
  have e2: "kron_rows A B ! j ! i =
      A ! (j div length B) ! (i div length B) * B ! (j mod length B) ! (i mod length B)"
    by (rule kron_rows_entry[OF j, where c = "length B"])
       (simp_all add: herm_row[OF A bj(1)] herm_row[OF B bj(2)] i)
  show "kron_rows A B ! i ! j = cnj (kron_rows A B ! j ! i)"
    unfolding e1 e2
    using herm_entry[OF A bi(1) bj(1)] herm_entry[OF B bi(2) bj(2)]
    by simp
qed

subsection \<open>Hermitian matrices are closed under the operations used\<close>

text \<open>
  The identity and the Pauli matrices are Hermitian; sums, differences and real multiples
  of Hermitian matrices of one dimension are Hermitian. A matrix that is Hermitian entry by
  entry equals its conjugate transpose.
\<close>

lemma length_eye_rows: "length (eye_rows d) = d"
  by (simp add: eye_rows_def)

lemma herm_eye_rows: "herm (eye_rows d)"
proof (rule hermI)
  fix i assume "i < length (eye_rows d)"
  then show "length (eye_rows d ! i) = length (eye_rows d)"
    by (simp add: eye_rows_def)
next
  fix i j assume "i < length (eye_rows d)" "j < length (eye_rows d)"
  then show "eye_rows d ! i ! j = cnj (eye_rows d ! j ! i)"
    by (simp add: eye_rows_def)
qed

lemma map2_rows_entry:
  assumes "i < length A" "i < length B" "j < length (A ! i)" "j < length (B ! i)"
  shows "map2 (map2 f) A B ! i ! j = f (A ! i ! j) (B ! i ! j)"
  using assms by simp

lemma herm_map2:
  assumes A: "herm A" and B: "herm B" and len: "length A = length B"
    and f: "\<And>x y. f (cnj x) (cnj y) = cnj (f x y)"
  shows "herm (map2 (map2 f) A B)"
proof (rule hermI)
  fix i assume "i < length (map2 (map2 f) A B)"
  then have i: "i < length A" "i < length B" using len by simp_all
  show "length (map2 (map2 f) A B ! i) = length (map2 (map2 f) A B)"
    using i herm_row[OF A i(1)] herm_row[OF B i(2)] len by simp
next
  fix i j assume "i < length (map2 (map2 f) A B)" "j < length (map2 (map2 f) A B)"
  then have i: "i < length A" "i < length B" and j: "j < length A" "j < length B"
    using len by simp_all
  have e1: "map2 (map2 f) A B ! i ! j = f (A ! i ! j) (B ! i ! j)"
    by (rule map2_rows_entry) (simp_all add: i j herm_row[OF A i(1)] herm_row[OF B i(2)])
  have e2: "map2 (map2 f) A B ! j ! i = f (A ! j ! i) (B ! j ! i)"
    by (rule map2_rows_entry) (simp_all add: i j herm_row[OF A j(1)] herm_row[OF B j(2)])
  show "map2 (map2 f) A B ! i ! j = cnj (map2 (map2 f) A B ! j ! i)"
    unfolding e1 e2 herm_entry[OF A i(1) j(1)] herm_entry[OF B i(2) j(2)]
    by (simp add: f)
qed

lemma herm_add_rows: "herm A \<Longrightarrow> herm B \<Longrightarrow> length A = length B \<Longrightarrow> herm (add_rows A B)"
  unfolding add_rows_def by (rule herm_map2) simp_all

lemma herm_sub_rows: "herm A \<Longrightarrow> herm B \<Longrightarrow> length A = length B \<Longrightarrow> herm (sub_rows A B)"
  unfolding sub_rows_def by (rule herm_map2) simp_all

lemma length_add_rows: "length A = length B \<Longrightarrow> length (add_rows A B) = length A"
  by (simp add: add_rows_def)

lemma length_sub_rows: "length A = length B \<Longrightarrow> length (sub_rows A B) = length A"
  by (simp add: sub_rows_def)

lemma length_scale_rows: "length (scale_rows c A) = length A"
  by (simp add: scale_rows_def)

lemma herm_scale_rows:
  assumes A: "herm A"
  shows "herm (scale_rows c A)"
proof (rule hermI)
  fix i assume "i < length (scale_rows c A)"
  then have i: "i < length A" by (simp add: scale_rows_def)
  show "length (scale_rows c A ! i) = length (scale_rows c A)"
    using i herm_row[OF A i] by (simp add: scale_rows_def)
next
  fix i j assume "i < length (scale_rows c A)" "j < length (scale_rows c A)"
  then have i: "i < length A" and j: "j < length A" by (simp_all add: scale_rows_def)
  have e1: "scale_rows c A ! i ! j = complex_of_real c * A ! i ! j"
    using i j herm_row[OF A i] by (simp add: scale_rows_def)
  have e2: "scale_rows c A ! j ! i = complex_of_real c * A ! j ! i"
    using i j herm_row[OF A j] by (simp add: scale_rows_def)
  show "scale_rows c A ! i ! j = cnj (scale_rows c A ! j ! i)"
    unfolding e1 e2 herm_entry[OF A i j] by simp
qed

lemma shape_herm: "herm M \<Longrightarrow> shape M = (length M, length M)"
  by (cases M) (simp_all add: shape_def herm_def)

lemma herm_dagger:
  assumes M: "herm M"
  shows "dagger M = M"
proof (rule nth_equalityI)
  show len: "length (dagger M) = length M"
    by (simp add: dagger_def shape_herm[OF M])
  fix i assume "i < length (dagger M)"
  then have i: "i < length M" using len by simp
  have "map (\<lambda>k. cnj (M ! k ! i)) [0..<length M] = M ! i"
  proof (rule nth_equalityI)
    show "length (map (\<lambda>k. cnj (M ! k ! i)) [0..<length M]) = length (M ! i)"
      using herm_row[OF M i] by simp
    fix j assume "j < length (map (\<lambda>k. cnj (M ! k ! i)) [0..<length M])"
    then have j: "j < length M" by simp
    show "map (\<lambda>k. cnj (M ! k ! i)) [0..<length M] ! j = M ! i ! j"
      using j herm_entry[OF M i j] by simp
  qed
  then show "dagger M ! i = M ! i"
    using i by (simp add: dagger_def shape_herm[OF M])
qed

lemma herm_pauli: "herm pauli_X" "herm pauli_Y" "herm pauli_Z" "herm pauli_I"
  by (auto simp: herm_def pauli_X_def pauli_Y_def pauli_Z_def pauli_I_def
      nth_Cons' less_Suc_eq)

subsection \<open>Embedding an operator in a chain of qubits\<close>

lemma py_slice_replicate:
  assumes "0 \<le> lo" "lo \<le> hi" "hi \<le> int m"
  shows "py_slice (replicate m x) lo hi = replicate (nat (hi - lo)) x"
proof -
  have "min (nat (hi - lo)) (m - nat lo) = nat (hi - lo)"
    using assms by linarith
  then show ?thesis
    using assms by (simp add: py_slice_def min_absorb1)
qed

lemma py_slice_Nil: "py_slice [] lo hi = []"
  by (simp add: py_slice_def)

lemma prod_list_replicate_2: "prod_list (replicate k (2::nat)) = 2 ^ k"
  by (induction k) simp_all

lemma rows_kron: "rows (kron a b) = kron_rows (rows a) (rows b)"
  by (simp add: kron_def)

lemma rows_eye: "rows (eye d s) = eye_rows d"
  by (simp add: eye_def)

lemma sparse_kron: "is_sparse (kron a b) = (is_sparse a \<or> is_sparse b)"
  by (simp add: kron_def)

lemma sparse_eye: "is_sparse (eye d s) = s"
  by (simp add: eye_def)

lemma herm_eyepad_from: "herm (rows a) \<Longrightarrow> herm (rows (eyepad_from a dims i js))"
  by (induction js arbitrary: i) (simp_all add: rows_kron rows_eye herm_kron_rows herm_eye_rows)

lemma herm_eyepad: "herm (rows a) \<Longrightarrow> herm (rows (eyepad a dims inds))"
  by (cases inds) (simp_all add: rows_kron rows_eye herm_kron_rows herm_eye_rows herm_eyepad_from)

lemma sparse_eyepad_from: "is_sparse (eyepad_from a dims i js) = is_sparse a"
  by (induction js arbitrary: i) (simp_all add: sparse_kron sparse_eye)

lemma sparse_eyepad: "is_sparse (eyepad a dims inds) = is_sparse a"
  by (cases inds) (simp_all add: sparse_kron sparse_eye sparse_eyepad_from)

text \<open>Dimension of an operator embedded at one position of a chain of qubits.\<close>

lemma length_eyepad_single:
  assumes "0 \<le> i" "i < int m"
  shows "length (rows (eyepad a (replicate m 2) [i])) = 2 ^ nat i * (length (rows a) * 2 ^ (m - nat i - 1))"
proof -
  have 1: "py_slice (replicate m (2::nat)) 0 i = replicate (nat i) 2"
    using assms by (simp add: py_slice_replicate)
  have 2: "py_slice (replicate m (2::nat)) (i + 1) (int m) = replicate (nat (int m - (i + 1))) 2"
    using assms by (simp add: py_slice_replicate)
  have 3: "nat (int m - (i + 1)) = m - nat i - 1"
    using assms by linarith
  show ?thesis
    by (simp add: rows_kron rows_eye length_kron_rows length_eye_rows 1 2 3 prod_list_replicate_2)
qed

lemma length_eyepad_ends:
  assumes "2 \<le> m"
  shows "length (rows (eyepad a (replicate m 2) [0, int m - 1])) =
           length (rows a) * (2 ^ (m - 2) * length (rows a))"
proof -
  have 1: "py_slice (replicate m (2::nat)) 0 0 = []"
    by (simp add: py_slice_def)
  have "py_slice (replicate m (2::nat)) 1 (int m - 1) = replicate (nat (int m - 1 - 1)) 2"
    using assms by (intro py_slice_replicate) simp_all
  moreover have "nat (int m - 1 - 1) = m - 2"
    using assms by linarith
  ultimately have 2: "py_slice (replicate m (2::nat)) 1 (int m - 1) = replicate (m - 2) 2"
    by simp
  have 4: "py_slice (replicate m (2::nat)) (int m) (int m) = []"
    by (simp add: py_slice_def)
  show ?thesis
    by (simp add: rows_kron rows_eye length_kron_rows length_eye_rows 1 2 4 prod_list_replicate_2)
qed

lemma qadd_herm:
  assumes "herm (rows a)" "herm (rows b)" "length (rows a) = length (rows b)"
  shows "qadd a b = Inr \<lparr>is_sparse = is_sparse a \<and> is_sparse b, rows = add_rows (rows a) (rows b)\<rparr>"
  using assms by (simp add: qadd_def shape_herm)

lemma qadd_good:
  assumes "good d a" "good d b"
  shows "\<exists>c. qadd a b = Inr c \<and> good d c \<and> rows c = add_rows (rows a) (rows b)"
  using assms
  by (simp add: good_def qadd_herm herm_add_rows length_add_rows)

subsection \<open>The accumulator of \<^verbatim>\<open>ham_heis\<close>\<close>

text \<open>
  Every operator added to the accumulator is Hermitian, sparse and of dimension \<open>2 ^ n\<close>,
  so no addition raises and the accumulator keeps the three properties through the loop and
  through the terms of the periodic chain (for at least two sites).
\<close>

declare eyepad.simps [simp del] eyepad_from.simps [simp del]


lemma length_pauli: "length pauli_X = 2" "length pauli_Y = 2" "length pauli_Z = 2" "length pauli_I = 2"
  by (simp_all add: pauli_X_def pauli_Y_def pauli_Z_def pauli_I_def)

lemma herm_sds_rows: "herm (sds_rows jx jy jz bz)"
  unfolding sds_rows_def
  by (intro herm_sub_rows herm_add_rows herm_scale_rows herm_kron_rows herm_pauli)
     (simp_all add: length_add_rows length_scale_rows length_kron_rows length_pauli)

lemma length_sds_rows: "length (sds_rows jx jy jz bz) = 4"
  by (simp add: sds_rows_def length_sub_rows length_add_rows length_scale_rows length_kron_rows
      length_pauli)

lemma good_sds: "good 4 \<lparr>is_sparse = True, rows = sds_rows jx jy jz bz\<rparr>"
  by (simp add: good_def herm_sds_rows length_sds_rows)

lemma butlast_replicate_2: "butlast (replicate m x) = replicate (m - 1) x"
proof (cases m)
  case 0
  then show ?thesis by simp
next
  case (Suc k)
  have "replicate (Suc k) x = replicate k x @ [x]"
    by (simp add: replicate_append_same)
  then show ?thesis
    using Suc by (simp del: replicate_Suc)
qed

lemma good_eyepad_site:
  assumes a: "herm (rows a)" "length (rows a) = 4" "is_sparse a" and i: "0 \<le> i" "i < int m - 1"
  shows "good (2 ^ m) (eyepad a (butlast (replicate m 2)) [i])"
proof -
  have lt: "i < int (m - 1)" using i by linarith
  define k where "k = m - 1 - nat i - 1"
  have k: "m - 1 - nat i - 1 = k" "m = nat i + 2 + k"
    using i unfolding k_def by linarith+
  have pw: "2 ^ nat i * (4 * 2 ^ (m - 1 - nat i - 1)) = (2::nat) ^ m"
    unfolding k(1) by (simp add: k(2) power_add)
  have len: "length (rows (eyepad a (replicate (m - 1) 2) [i])) = 2 ^ m"
    using length_eyepad_single[OF i(1) lt, of a] a(2) pw by simp
  have sp: "is_sparse (eyepad a (replicate (m - 1) 2) [i])"
    by (simp add: sparse_eyepad a(3))
  show ?thesis
    unfolding good_def butlast_replicate_2
    using herm_eyepad[OF a(1)] len sp by blast
qed

lemma heis_loop_good:
  assumes "good (2 ^ m) ham" and "herm (rows sds)" "length (rows sds) = 4" "is_sparse sds"
    and "\<forall>i\<in>set is. 0 \<le> i \<and> i < int m - 1"
  shows "\<exists>H. heis_loop sds (replicate m 2) ham is = Inr H \<and> good (2 ^ m) H"
  using assms(1,5)
proof (induction "is" arbitrary: ham)
  case Nil
  then show ?case by simp
next
  case (Cons i "is")
  have "good (2 ^ m) (eyepad sds (butlast (replicate m 2)) [i])"
    using Cons.prems(2) assms(2-4) by (intro good_eyepad_site) simp_all
  from qadd_good[OF Cons.prems(1) this]
  obtain c where c: "qadd ham (eyepad sds (butlast (replicate m 2)) [i]) = Inr c" "good (2 ^ m) c"
    by blast
  have "\<exists>H. heis_loop sds (replicate m 2) c is = Inr H \<and> good (2 ^ m) H"
    using Cons.prems(2) by (intro Cons.IH[OF c(2)]) simp
  then show ?case
    by (simp add: c(1) ebind_def)
qed

lemma good_eyepad_last:
  assumes a: "herm (rows a)" "length (rows a) = 2" "is_sparse a" and m: "1 \<le> m"
  shows "good (2 ^ m) (eyepad a (replicate m 2) [int m - 1])"
proof -
  have i: "0 \<le> int m - 1" "int m - 1 < int m" using m by simp_all
  have n: "nat (int m - 1) = m - 1" by linarith
  have "(2::nat) ^ m = 2 ^ (Suc (m - 1))" using m by simp
  then have pw: "2 ^ (m - 1) * (2::nat) = 2 ^ m" by simp
  show ?thesis
    unfolding good_def
    using a pw by (simp add: herm_eyepad sparse_eyepad length_eyepad_single[OF i] n)
qed

lemma good_eyepad_ends:
  assumes a: "herm (rows a)" "length (rows a) = 2" "is_sparse a" and m: "2 \<le> m"
  shows "good (2 ^ m) (eyepad a (replicate m 2) [0, int m - 1])"
proof -
  have "Suc (Suc (m - 2)) = m" using m by simp
  then have "(2::nat) ^ m = 2 ^ (Suc (Suc (m - 2)))" by simp
  then have pw: "2 * (2 ^ (m - 2) * 2) = (2::nat) ^ m" by simp
  show ?thesis
    unfolding good_def
    using a pw by (simp add: herm_eyepad sparse_eyepad length_eyepad_ends[OF m])
qed

lemma heis_periodic_good:
  assumes "good (2 ^ m) ham" "2 \<le> m"
  shows "\<exists>H. heis_periodic (int m) (replicate m 2) ham = Inr H \<and> good (2 ^ m) H \<and>
     rows H = add_rows (add_rows (add_rows (rows ham)
        (rows (eyepad \<lparr>is_sparse = True, rows = pauli_X\<rparr> (replicate m 2) [0, int m - 1])))
        (rows (eyepad \<lparr>is_sparse = True, rows = pauli_Y\<rparr> (replicate m 2) [0, int m - 1])))
        (rows (eyepad \<lparr>is_sparse = True, rows = pauli_Z\<rparr> (replicate m 2) [0, int m - 1]))"
proof -
  let ?ex = "eyepad \<lparr>is_sparse = True, rows = pauli_X\<rparr> (replicate m 2) [0, int m - 1]"
  let ?ey = "eyepad \<lparr>is_sparse = True, rows = pauli_Y\<rparr> (replicate m 2) [0, int m - 1]"
  let ?ez = "eyepad \<lparr>is_sparse = True, rows = pauli_Z\<rparr> (replicate m 2) [0, int m - 1]"
  have gx: "good (2 ^ m) ?ex" and gy: "good (2 ^ m) ?ey" and gz: "good (2 ^ m) ?ez"
    using assms(2) by (simp_all add: good_eyepad_ends herm_pauli length_pauli)
  obtain h1 where h1: "qadd ham ?ex = Inr h1" "good (2 ^ m) h1"
      "rows h1 = add_rows (rows ham) (rows ?ex)"
    using qadd_good[OF assms(1) gx] by blast
  obtain h2 where h2: "qadd h1 ?ey = Inr h2" "good (2 ^ m) h2"
      "rows h2 = add_rows (rows h1) (rows ?ey)"
    using qadd_good[OF h1(2) gy] by blast
  obtain h3 where h3: "qadd h2 ?ez = Inr h3" "good (2 ^ m) h3"
      "rows h3 = add_rows (rows h2) (rows ?ez)"
    using qadd_good[OF h2(2) gz] by blast
  have "heis_periodic (int m) (replicate m 2) ham = Inr h3"
    by (simp add: heis_periodic_def sig_x sig_y sig_z need_def ebind_def h1(1) h2(1) h3(1))
  then show ?thesis
    using h3(2,3) h2(3) h1(3) by simp
qed

lemma heis_open_good:
  assumes "1 \<le> n"
  shows "\<exists>H. ham_heis n jx jy jz bz False True = Inr H \<and> good (2 ^ nat n) H"
proof -
  let ?m = "nat n"
  have m: "1 \<le> ?m" "n = int ?m" using assms by simp_all
  let ?sz = "\<lparr>is_sparse = True, rows = pauli_Z\<rparr>"
  have "good (2 ^ ?m) (eyepad (scale (- bz) ?sz) (replicate ?m 2) [int ?m - 1])"
    using m(1) by (intro good_eyepad_last) (simp_all add: scale_def herm_scale_rows herm_pauli
        length_scale_rows length_pauli)
  then have g0: "good (2 ^ ?m) (eyepad (scale (- bz) ?sz) (replicate ?m 2) [n - 1])"
    using m(2) by simp
  have "\<forall>i\<in>set (map int [0..<nat (n - 1)]). 0 \<le> i \<and> i < int ?m - 1"
    using assms by auto
  then have "\<exists>H. heis_loop \<lparr>is_sparse = True, rows = sds_rows jx jy jz bz\<rparr> (replicate ?m 2)
      (eyepad (scale (- bz) ?sz) (replicate ?m 2) [n - 1]) (map int [0..<nat (n - 1)]) = Inr H
      \<and> good (2 ^ ?m) H"
    by (intro heis_loop_good[OF g0]) (simp_all add: herm_sds_rows length_sds_rows)
  then obtain H where H: "heis_loop \<lparr>is_sparse = True, rows = sds_rows jx jy jz bz\<rparr> (replicate ?m 2)
      (eyepad (scale (- bz) ?sz) (replicate ?m 2) [n - 1]) (map int [0..<nat (n - 1)]) = Inr H"
      "good (2 ^ ?m) H"
    by blast
  show ?thesis
    by (simp add: ham_heis_def sds_block_eq sig_z need_def ebind_def H)
qed

subsection \<open>The terms added for a periodic chain\<close>

text \<open>
  For at least two sites the three terms place a Pauli operator on the first and on the
  last site. Their sum has the entry 1 at \<open>(0, 0)\<close>, so adding them changes the matrix.
\<close>

lemma rows_eyepad_ends:
  assumes "2 \<le> m"
  shows "rows (eyepad a (replicate m 2) [0, int m - 1]) = boundary_term m (rows a)"
proof -
  have 1: "py_slice (replicate m (2::nat)) 0 0 = []"
    by (simp add: py_slice_def)
  have "py_slice (replicate m (2::nat)) 1 (int m - 1) = replicate (nat (int m - 1 - 1)) 2"
    using assms by (intro py_slice_replicate) simp_all
  moreover have "nat (int m - 1 - 1) = m - 2"
    using assms by linarith
  ultimately have 2: "py_slice (replicate m (2::nat)) 1 (int m - 1) = replicate (m - 2) 2"
    by simp
  have 4: "py_slice (replicate m (2::nat)) (int m) (int m) = []"
    by (simp add: py_slice_def)
  show ?thesis
    by (simp add: eyepad.simps eyepad_from.simps rows_kron rows_eye 1 2 4 eye_rows_Suc0
        kron_rows_one_left kron_rows_one_right boundary_term_def)
qed

lemma ham_heis_unfold:
  "ham_heis n jx jy jz bz periodic sparse =
     ebind (ham_heis n jx jy jz bz False True) (\<lambda>H.
     ebind (if periodic then heis_periodic n (replicate (nat n) 2) H else Inr H) (\<lambda>H'.
     Inr (if \<not> sparse then todense H' else H')))"
  by (simp add: ham_heis_def ebind_def Let_def split: sum.splits)

lemma vec_cancel:
  fixes h a b c :: "complex list"
  assumes "length a = length h" "length b = length h" "length c = length h"
  shows "map2 (-) (map2 (+) (map2 (+) (map2 (+) h a) b) c) h = map2 (+) (map2 (+) a b) c"
  by (rule nth_equalityI) (simp_all add: assms)

lemma rows_cancel:
  assumes H: "herm H" and A: "herm A" and B: "herm B" and C: "herm C"
    and len: "length A = length H" "length B = length H" "length C = length H"
  shows "sub_rows (add_rows (add_rows (add_rows H A) B) C) H = add_rows (add_rows A B) C"
  unfolding sub_rows_def add_rows_def
proof (rule nth_equalityI)
  show "length (map2 (map2 (-)) (map2 (map2 (+)) (map2 (map2 (+)) (map2 (map2 (+)) H A) B) C) H)
      = length (map2 (map2 (+)) (map2 (map2 (+)) A B) C)"
    by (simp add: len)
  fix i assume "i < length (map2 (map2 (-)) (map2 (map2 (+)) (map2 (map2 (+)) (map2 (map2 (+)) H A) B) C) H)"
  then have i: "i < length H" by (simp add: len)
  have r: "length (A ! i) = length (H ! i)" "length (B ! i) = length (H ! i)"
      "length (C ! i) = length (H ! i)"
    using i len herm_row[OF H i] herm_row[OF A, of i] herm_row[OF B, of i] herm_row[OF C, of i]
    by simp_all
  show "map2 (map2 (-)) (map2 (map2 (+)) (map2 (map2 (+)) (map2 (map2 (+)) H A) B) C) H ! i
      = map2 (map2 (+)) (map2 (map2 (+)) A B) C ! i"
    using i len by (simp add: vec_cancel[OF r])
qed

lemma good_boundary:
  assumes "2 \<le> m" "herm P" "length P = 2"
  shows "herm (boundary_term m P)" "length (boundary_term m P) = 2 ^ m"
proof -
  have g: "good (2 ^ m) (eyepad \<lparr>is_sparse = True, rows = P\<rparr> (replicate m 2) [0, int m - 1])"
    using assms by (intro good_eyepad_ends) simp_all
  show "herm (boundary_term m P)" "length (boundary_term m P) = 2 ^ m"
    using g rows_eyepad_ends[OF assms(1), of "\<lparr>is_sparse = True, rows = P\<rparr>"]
    by (simp_all add: good_def)
qed

lemma ham_heis_periodic_decomp:
  assumes "2 \<le> n"
  shows "\<exists>H P. ham_heis n jx jy jz bz False True = Inr H \<and> good (2 ^ nat n) H
     \<and> heis_periodic n (replicate (nat n) 2) H = Inr P \<and> good (2 ^ nat n) P
     \<and> rows P = add_rows (add_rows (add_rows (rows H) (boundary_term (nat n) pauli_X))
                    (boundary_term (nat n) pauli_Y)) (boundary_term (nat n) pauli_Z)"
proof -
  let ?m = "nat n"
  have m: "2 \<le> ?m" "n = int ?m" using assms by simp_all
  obtain H where H: "ham_heis n jx jy jz bz False True = Inr H" "good (2 ^ ?m) H"
    using heis_open_good[of n jx jy jz bz] assms by auto
  obtain P where P: "heis_periodic (int ?m) (replicate ?m 2) H = Inr P" "good (2 ^ ?m) P"
    "rows P = add_rows (add_rows (add_rows (rows H)
        (rows (eyepad \<lparr>is_sparse = True, rows = pauli_X\<rparr> (replicate ?m 2) [0, int ?m - 1])))
        (rows (eyepad \<lparr>is_sparse = True, rows = pauli_Y\<rparr> (replicate ?m 2) [0, int ?m - 1])))
        (rows (eyepad \<lparr>is_sparse = True, rows = pauli_Z\<rparr> (replicate ?m 2) [0, int ?m - 1]))"
    using heis_periodic_good[OF H(2) m(1)] by blast
  have "rows P = add_rows (add_rows (add_rows (rows H) (boundary_term ?m pauli_X))
                    (boundary_term ?m pauli_Y)) (boundary_term ?m pauli_Z)"
    by (simp only: P(3) rows_eyepad_ends[OF m(1)] qobj.simps)
  moreover have "heis_periodic n (replicate ?m 2) H = Inr P"
    using P(1) m(2) by simp
  ultimately show ?thesis
    using H P(2) by blast
qed

lemma periodic_minus_open:
  assumes "2 \<le> n"
  shows "ebind (ham_heis n jx jy jz bz True sparse) (\<lambda>P.
         ebind (ham_heis n jx jy jz bz False sparse) (\<lambda>H. qsub P H))
       = Inr \<lparr>is_sparse = sparse, rows =
           add_rows (add_rows (boundary_term (nat n) pauli_X) (boundary_term (nat n) pauli_Y))
                    (boundary_term (nat n) pauli_Z)\<rparr>"
proof -
  let ?m = "nat n"
  have m: "2 \<le> ?m" using assms by simp
  obtain H P where HP: "ham_heis n jx jy jz bz False True = Inr H" "good (2 ^ ?m) H"
     "heis_periodic n (replicate ?m 2) H = Inr P" "good (2 ^ ?m) P"
     "rows P = add_rows (add_rows (add_rows (rows H) (boundary_term ?m pauli_X))
                    (boundary_term ?m pauli_Y)) (boundary_term ?m pauli_Z)"
    using ham_heis_periodic_decomp[OF assms] by blast
  have per: "ham_heis n jx jy jz bz True sparse = Inr (if \<not> sparse then todense P else P)"
    by (subst ham_heis_unfold) (simp add: HP ebind_def)
  have opn: "ham_heis n jx jy jz bz False sparse = Inr (if \<not> sparse then todense H else H)"
    by (subst ham_heis_unfold) (simp add: HP ebind_def)
  have sh: "shape (rows P) = shape (rows H)"
    using HP(2,4) by (simp add: good_def shape_herm)
  have "sub_rows (rows P) (rows H) =
      add_rows (add_rows (boundary_term ?m pauli_X) (boundary_term ?m pauli_Y))
               (boundary_term ?m pauli_Z)"
    unfolding HP(5)
    using HP(2) good_boundary[OF m] herm_pauli length_pauli
    by (intro rows_cancel) (simp_all add: good_def)
  then show ?thesis
    using HP(2,4) sh by (simp add: per opn ebind_def qsub_def todense_def good_def)
qed

lemma kron_rows_entry00:
  assumes A: "herm A" and B: "herm B" and a: "0 < length A" and b: "0 < length B"
  shows "kron_rows A B ! 0 ! 0 = A ! 0 ! 0 * B ! 0 ! 0"
proof -
  have "kron_rows A B ! 0 ! 0 =
      A ! (0 div length B) ! (0 div length B) * B ! (0 mod length B) ! (0 mod length B)"
    by (rule kron_rows_entry[where c = "length B"])
       (use a b herm_row[OF A a] herm_row[OF B b] in simp_all)
  then show ?thesis by simp
qed

lemma eye_rows_entry00: "0 < d \<Longrightarrow> eye_rows d ! 0 ! 0 = 1"
  by (simp add: eye_rows_def)

lemma boundary_entry00:
  assumes P: "herm P" "length P = 2"
  shows "boundary_term m P ! 0 ! 0 = P ! 0 ! 0 * P ! 0 ! 0"
proof -
  have I: "herm (kron_rows (eye_rows (2 ^ (m - 2))) P)"
      "0 < length (kron_rows (eye_rows (2 ^ (m - 2))) P)"
    using P by (simp_all add: herm_kron_rows herm_eye_rows length_kron_rows length_eye_rows)
  have "boundary_term m P ! 0 ! 0 = P ! 0 ! 0 * kron_rows (eye_rows (2 ^ (m - 2))) P ! 0 ! 0"
    unfolding boundary_term_def
    using P I by (intro kron_rows_entry00) simp_all
  also have "kron_rows (eye_rows (2 ^ (m - 2))) P ! 0 ! 0 = eye_rows (2 ^ (m - 2)) ! 0 ! 0 * P ! 0 ! 0"
    using P by (intro kron_rows_entry00) (simp_all add: herm_eye_rows length_eye_rows)
  finally show ?thesis
    by (simp add: eye_rows_entry00)
qed

lemma add_rows_entry00:
  assumes "herm A" "herm B" "length A = length B" "0 < length A"
  shows "add_rows A B ! 0 ! 0 = A ! 0 ! 0 + B ! 0 ! 0"
  unfolding add_rows_def
  using assms herm_row[OF assms(1), of 0] herm_row[OF assms(2), of 0]
  by (intro map2_rows_entry) simp_all

lemma periodic_changes_entry:
  assumes m: "2 \<le> m" and H: "herm H" "length H = 2 ^ m"
  shows "add_rows (add_rows (add_rows H (boundary_term m pauli_X)) (boundary_term m pauli_Y))
           (boundary_term m pauli_Z) ! 0 ! 0 = H ! 0 ! 0 + 1"
proof -
  note tx = good_boundary[OF m herm_pauli(1) length_pauli(1)]
  note ty = good_boundary[OF m herm_pauli(2) length_pauli(2)]
  note tz = good_boundary[OF m herm_pauli(3) length_pauli(3)]
  have h1: "herm (add_rows H (boundary_term m pauli_X))"
      "length (add_rows H (boundary_term m pauli_X)) = 2 ^ m"
    using H tx by (simp_all add: herm_add_rows length_add_rows)
  have h2: "herm (add_rows (add_rows H (boundary_term m pauli_X)) (boundary_term m pauli_Y))"
      "length (add_rows (add_rows H (boundary_term m pauli_X)) (boundary_term m pauli_Y)) = 2 ^ m"
    using h1 ty by (simp_all add: herm_add_rows length_add_rows)
  have e: "boundary_term m pauli_X ! 0 ! 0 = 0" "boundary_term m pauli_Y ! 0 ! 0 = 0"
      "boundary_term m pauli_Z ! 0 ! 0 = 1"
    by (simp_all add: boundary_entry00 herm_pauli length_pauli)
       (simp_all add: pauli_X_def pauli_Y_def pauli_Z_def)
  show ?thesis
    using H h1 h2 tx ty tz
    by (simp add: add_rows_entry00 e)
qed

lemma periodic_differs:
  assumes "2 \<le> n"
  shows "\<exists>H P. ham_heis n jx jy jz bz False True = Inr H
     \<and> heis_periodic n (replicate (nat n) 2) H = Inr P
     \<and> is_sparse H \<and> is_sparse P
     \<and> rows P = add_rows (add_rows (add_rows (rows H) (boundary_term (nat n) pauli_X))
                    (boundary_term (nat n) pauli_Y)) (boundary_term (nat n) pauli_Z)
     \<and> rows P \<noteq> rows H"
proof -
  let ?m = "nat n"
  have m: "2 \<le> ?m" using assms by simp
  obtain H P where HP: "ham_heis n jx jy jz bz False True = Inr H" "good (2 ^ ?m) H"
     "heis_periodic n (replicate ?m 2) H = Inr P" "good (2 ^ ?m) P"
     "rows P = add_rows (add_rows (add_rows (rows H) (boundary_term ?m pauli_X))
                    (boundary_term ?m pauli_Y)) (boundary_term ?m pauli_Z)"
    using ham_heis_periodic_decomp[OF assms] by blast
  have "rows P ! 0 ! 0 = rows H ! 0 ! 0 + 1"
    unfolding HP(5) using HP(2) by (intro periodic_changes_entry[OF m]) (simp_all add: good_def)
  then have "rows P \<noteq> rows H"
    by auto
  moreover have "is_sparse H" "is_sparse P"
    using HP(2,4) by (simp_all add: good_def)
  ultimately show ?thesis
    using HP(1,3,5) by blast
qed

subsection \<open>Results of \<^verbatim>\<open>ham_heis\<close> in general\<close>

text \<open>
  The format of the result, the single site with \<open>periodic\<close> set (where the embedding at
  the positions \<open>[0, 0]\<close> is a 4 by 4 operator and the addition raises), and the shape of
  every result for \<open>n \<ge> 1\<close>.
\<close>

lemma qadd_sparse: "qadd a b = Inr c \<Longrightarrow> is_sparse c = (is_sparse a \<and> is_sparse b)"
  by (auto simp: qadd_def split: if_splits)

lemma heis_loop_sparse:
  "heis_loop sds dims ham is = Inr H \<Longrightarrow> is_sparse ham \<Longrightarrow> is_sparse sds \<Longrightarrow> is_sparse H"
proof (induction "is" arbitrary: ham)
  case Nil
  then show ?case by simp
next
  case (Cons i "is")
  from Cons.prems(1) obtain c where c: "qadd ham (eyepad sds (butlast dims) [i]) = Inr c"
      "heis_loop sds dims c is = Inr H"
    by (auto simp: ebind_def split: sum.splits)
  have "is_sparse c"
    using qadd_sparse[OF c(1)] Cons.prems(2,3) by (simp add: sparse_eyepad)
  then show ?case
    using Cons.IH[OF c(2)] Cons.prems(3) by simp
qed

lemma heis_periodic_sparse:
  assumes "heis_periodic n dims ham = Inr H" "is_sparse ham"
  shows "is_sparse H"
proof -
  let ?e = "\<lambda>P. eyepad \<lparr>is_sparse = True, rows = P\<rparr> dims [0, n - 1]"
  from assms(1) obtain h1 h2 where h: "qadd ham (?e pauli_X) = Inr h1"
      "qadd h1 (?e pauli_Y) = Inr h2" "qadd h2 (?e pauli_Z) = Inr H"
    by (auto simp: heis_periodic_def sig_x sig_y sig_z need_def ebind_def split: sum.splits)
  show ?thesis
    using qadd_sparse[OF h(1)] qadd_sparse[OF h(2)] qadd_sparse[OF h(3)] assms(2)
    by (simp add: sparse_eyepad)
qed

lemma ham_heis_acc_sparse:
  assumes "ham_heis n jx jy jz bz periodic True = Inr H"
  shows "is_sparse H"
proof -
  let ?dims = "replicate (nat n) (2::nat)"
  let ?sds = "\<lparr>is_sparse = True, rows = sds_rows jx jy jz bz\<rparr>"
  let ?h0 = "eyepad (scale (- bz) \<lparr>is_sparse = True, rows = pauli_Z\<rparr>) ?dims [n - 1]"
  from assms obtain L where L: "heis_loop ?sds ?dims ?h0 (map int [0..<nat (n - 1)]) = Inr L"
      "(if periodic then heis_periodic n ?dims L else Inr L) = Inr H"
    by (auto simp: ham_heis_def sds_block_eq sig_z need_def ebind_def Let_def split: sum.splits)
  have "is_sparse L"
    using heis_loop_sparse[OF L(1)] by (simp add: sparse_eyepad scale_def)
  then show ?thesis
    using L(2) heis_periodic_sparse[of n ?dims L H] by (cases periodic) simp_all
qed

lemma shape_neq: "length A \<noteq> length B \<Longrightarrow> shape A \<noteq> shape B"
  by (simp add: shape_def)

lemma py_slice_single: "py_slice [d] 0 0 = []" "py_slice [d] 1 0 = []" "py_slice [d] 1 1 = []"
  by (simp_all add: py_slice_def)

lemma ham_heis_single_periodic: "ham_heis 1 jx jy jz bz True sparse = Inl ValueError"
proof -
  obtain H where H: "ham_heis 1 jx jy jz bz False True = Inr H" "good (2 ^ nat 1) H"
    using heis_open_good[of 1 jx jy jz bz] by auto
  have "length (rows (eyepad \<lparr>is_sparse = True, rows = pauli_X\<rparr> [2] [0, 1 - 1])) = 4"
    by (simp add: eyepad.simps eyepad_from.simps py_slice_single rows_kron rows_eye
        length_kron_rows length_eye_rows length_pauli)
  then have "shape (rows H) \<noteq> shape (rows (eyepad \<lparr>is_sparse = True, rows = pauli_X\<rparr> [2] [0, 1 - 1]))"
    using H(2) by (intro shape_neq) (simp add: good_def)
  then have "heis_periodic 1 [2] H = Inl ValueError"
    by (simp add: heis_periodic_def sig_x sig_y sig_z need_def ebind_def qadd_def)
  then show ?thesis
    by (subst ham_heis_unfold) (simp add: H(1) ebind_def)
qed

lemma ham_heis_result:
  assumes "1 \<le> n" "2 \<le> n \<or> \<not> periodic"
  shows "\<exists>H. ham_heis n jx jy jz bz periodic sparse = Inr H \<and> herm (rows H)
           \<and> length (rows H) = 2 ^ nat n"
proof -
  obtain H where H: "ham_heis n jx jy jz bz False True = Inr H" "good (2 ^ nat n) H"
    using heis_open_good[OF assms(1)] by blast
  show ?thesis
  proof (cases periodic)
    case False
    then show ?thesis
      using H by (subst ham_heis_unfold) (simp add: ebind_def todense_def good_def)
  next
    case True
    then have "2 \<le> n" using assms(2) by simp
    from ham_heis_periodic_decomp[OF this, of jx jy jz bz] H(1)
    obtain P where P: "heis_periodic n (replicate (nat n) 2) H = Inr P" "good (2 ^ nat n) P"
      by auto
    show ?thesis
      using True H(1) P by (subst ham_heis_unfold) (simp add: ebind_def todense_def good_def)
  qed
qed

lemma ham_heis_any_result:
  assumes "1 \<le> n" "ham_heis n jx jy jz bz periodic sparse = Inr H"
  shows "herm (rows H) \<and> length (rows H) = 2 ^ nat n"
proof (cases "2 \<le> n \<or> \<not> periodic")
  case True
  from ham_heis_result[OF assms(1) this, of jx jy jz bz sparse] assms(2)
  show ?thesis by auto
next
  case False
  then have "n = 1" "periodic" using assms(1) by auto
  then show ?thesis
    using assms(2) by (simp add: ham_heis_single_periodic)
qed

lemma square_herm: "herm M \<Longrightarrow> square (length M) M"
  by (simp add: square_def herm_def list_all_iff)

lemma py_slice_pair: "py_slice [d, e] 0 1 = [d]" "py_slice [d, e] 2 2 = []"
  by (simp_all add: py_slice_def)


subsection \<open>Claims about \<^verbatim>\<open>sig\<close>\<close>

text \<open>
  C10. An argument outside the recognised set
  \<open>{1, 'x', 'X', 2, 'y', 'Y', 3, 'z', 'Z', 0, 'i', 'I'}\<close> falls through every branch of
  \<^verbatim>\<open>sig\<close>, which then returns \<^verbatim>\<open>None\<close>: no matrix, and no error. The integer codes
  are 1 for X, 2 for Y, 3 for Z and 0 for the identity.
\<close>

theorem sig_unrecognised_None:
  assumes "xyz \<notin> set [PyInt 1, PyStr ''x'', PyStr ''X'', PyInt 2, PyStr ''y'', PyStr ''Y'',
                       PyInt 3, PyStr ''z'', PyStr ''Z'', PyInt 0, PyStr ''i'', PyStr ''I'']"
  shows "sig xyz sparse = None
       \<and> sig (PyInt 1) sparse = Some (qonvert pauli_X sparse)
       \<and> sig (PyInt 2) sparse = Some (qonvert pauli_Y sparse)
       \<and> sig (PyInt 3) sparse = Some (qonvert pauli_Z sparse)
       \<and> sig (PyInt 0) sparse = Some (qonvert pauli_I sparse)"
  using assms
  by (simp add: sig_def pauli_X_def pauli_Y_def pauli_Z_def pauli_I_def)

theorem sig_unrecognised_None_witness:
  "PyInt 4 \<notin> set [PyInt 1, PyStr ''x'', PyStr ''X'', PyInt 2, PyStr ''y'', PyStr ''Y'',
                    PyInt 3, PyStr ''z'', PyStr ''Z'', PyInt 0, PyStr ''i'', PyStr ''I'']
   \<and> sig (PyInt 4) False = None
   \<and> sig (PyInt 1) False = Some (qonvert pauli_X False)"
  using sig_unrecognised_None [of "PyInt 4" False]
  by simp

subsection \<open>Small chains\<close>

text \<open>
  C7. For a single site and an open chain the result is exactly the field term on that
  site, \<open>- bz \<cdot> Z\<close>, a 2 by 2 matrix, whatever the couplings are.
\<close>

theorem ham_heis_single_site:
  "ham_heis 1 jx jy jz bz False False
     = Inr \<lparr>is_sparse = False, rows = scale_rows (- bz) pauli_Z\<rparr>"
  by (simp add: ham_heis_def sds_block_eq sig_z need_def ebind_def scale_def kron_def
      eye_def py_slice_def eye_rows_Suc0 eye_rows_1 kron_rows_one_left kron_rows_one_right
      todense_def eyepad.simps eyepad_from.simps)

text \<open>
  C3. For two sites and an open chain the result is
  \<open>jx X\<otimes>X + jy Y\<otimes>Y + jz Z\<otimes>Z - bz Z\<otimes>I - bz I\<otimes>Z\<close>, for all real couplings and fields.
\<close>

theorem ham_heis_two_sites_open:
  "ham_heis 2 jx jy jz bz False False =
     Inr \<lparr>is_sparse = False, rows =
       sub_rows (sub_rows (add_rows (add_rows (scale_rows jx (kron_rows pauli_X pauli_X))
                                              (scale_rows jy (kron_rows pauli_Y pauli_Y)))
                                    (scale_rows jz (kron_rows pauli_Z pauli_Z)))
                          (scale_rows bz (kron_rows pauli_Z pauli_I)))
                (scale_rows bz (kron_rows pauli_I pauli_Z))\<rparr>"
proof -
  have dims: "replicate (nat 2) (2::nat) = [2, 2]"
    by (simp add: numeral_2_eq_2)
  have rng: "map int [0..<nat (2 - 1)] = [0]"
    by simp
  have rows: "add_rows (kron_rows (eye_rows 2) (scale_rows (- bz) pauli_Z)) (sds_rows jx jy jz bz)
      = sub_rows (sds_rows jx jy jz bz) (scale_rows bz (kron_rows pauli_I pauli_Z))"
    by (simp add: eye_rows_2 sds_rows_def kron_rows_def scale_rows_def add_rows_def sub_rows_def
        pauli_X_def pauli_Y_def pauli_Z_def pauli_I_def)
  have sh: "shape (kron_rows (eye_rows 2) (scale_rows (- bz) pauli_Z)) = shape (sds_rows jx jy jz bz)"
    by (simp add: shape_herm herm_kron_rows herm_eye_rows herm_scale_rows herm_pauli herm_sds_rows
        length_kron_rows length_eye_rows length_scale_rows length_pauli length_sds_rows)
  show ?thesis
    unfolding ham_heis_def dims rng Let_def
    by (simp add: sds_block_eq sig_z need_def ebind_def eyepad.simps eyepad_from.simps
        py_slice_pair py_slice_single scale_def kron_def eye_def eye_rows_1 eye_rows_Suc0
        kron_rows_one_left kron_rows_one_right qadd_def sh rows todense_def
        sds_rows_def[symmetric])
qed

subsection \<open>The periodic chain\<close>

text \<open>
  C8. For three sites, unit couplings and no field, the periodic Hamiltonian minus the open
  one is exactly the sum of the three couplings between sites 0 and 2,
  \<open>X\<otimes>I\<otimes>X + Y\<otimes>I\<otimes>Y + Z\<otimes>I\<otimes>Z\<close>.
\<close>

theorem ham_heis_three_sites_periodic_minus_open:
  "ebind (ham_heis 3 1 1 1 0 True False) (\<lambda>P.
   ebind (ham_heis 3 1 1 1 0 False False) (\<lambda>H. qsub P H))
     = Inr \<lparr>is_sparse = False, rows =
         add_rows (add_rows (kron_rows pauli_X (kron_rows pauli_I pauli_X))
                            (kron_rows pauli_Y (kron_rows pauli_I pauli_Y)))
                  (kron_rows pauli_Z (kron_rows pauli_I pauli_Z))\<rparr>"
proof -
  have "boundary_term (nat 3) P = kron_rows P (kron_rows pauli_I P)" for P
    by (simp add: boundary_term_def eye_rows_2 pauli_I_def)
  then show ?thesis
    using periodic_minus_open[of 3 1 1 1 0 False] by simp
qed

text \<open>
  C1, at the input \<open>n = 3\<close>, \<open>jx = 2\<close>, \<open>jy = 3\<close>, \<open>jz = 5\<close>, \<open>bz = 0\<close>. The terms that
  close the ring are added with weight one: the periodic Hamiltonian minus the open one is
  \<open>X\<otimes>I\<otimes>X + Y\<otimes>I\<otimes>Y + Z\<otimes>I\<otimes>Z\<close>, and that is not
  \<open>2 X\<otimes>I\<otimes>X + 3 Y\<otimes>I\<otimes>Y + 5 Z\<otimes>I\<otimes>Z\<close>, the terms carrying the couplings.
\<close>

theorem ham_heis_boundary_unweighted:
  "ebind (ham_heis 3 2 3 5 0 True False) (\<lambda>P.
   ebind (ham_heis 3 2 3 5 0 False False) (\<lambda>H. qsub P H))
     = Inr \<lparr>is_sparse = False, rows =
         add_rows (add_rows (boundary_term 3 pauli_X) (boundary_term 3 pauli_Y))
                  (boundary_term 3 pauli_Z)\<rparr>
   \<and> add_rows (add_rows (boundary_term 3 pauli_X) (boundary_term 3 pauli_Y))
               (boundary_term 3 pauli_Z)
     \<noteq> add_rows (add_rows (scale_rows 2 (boundary_term 3 pauli_X))
                          (scale_rows 3 (boundary_term 3 pauli_Y)))
                (scale_rows 5 (boundary_term 3 pauli_Z))"
proof
  show "ebind (ham_heis 3 2 3 5 0 True False) (\<lambda>P.
        ebind (ham_heis 3 2 3 5 0 False False) (\<lambda>H. qsub P H))
     = Inr \<lparr>is_sparse = False, rows =
         add_rows (add_rows (boundary_term 3 pauli_X) (boundary_term 3 pauli_Y))
                  (boundary_term 3 pauli_Z)\<rparr>"
    using periodic_minus_open[of 3 2 3 5 0 False] by simp
  show "add_rows (add_rows (boundary_term 3 pauli_X) (boundary_term 3 pauli_Y))
               (boundary_term 3 pauli_Z)
     \<noteq> add_rows (add_rows (scale_rows 2 (boundary_term 3 pauli_X))
                          (scale_rows 3 (boundary_term 3 pauli_Y)))
                (scale_rows 5 (boundary_term 3 pauli_Z))"
    by code_simp
qed

text \<open>
  C2, as stated, fails for two sites: with \<open>periodic\<close> set the result is not the one of
  the open chain, so terms beyond those of the loop have been added.
\<close>

theorem ham_heis_two_sites_periodic_counterexample:
  "ham_heis 2 1 1 1 0 True False \<noteq> ham_heis 2 1 1 1 0 False False"
proof -
  obtain H P where HP: "ham_heis 2 1 1 1 0 False True = Inr H"
      "heis_periodic 2 (replicate (nat 2) 2) H = Inr P" "rows P \<noteq> rows H"
    using periodic_differs[of 2 1 1 1 0] by auto
  have "ham_heis 2 1 1 1 0 True False = Inr (todense P)"
    using HP(1,2) by (subst ham_heis_unfold) (simp add: ebind_def)
  moreover have "ham_heis 2 1 1 1 0 False False = Inr (todense H)"
    using HP(1) by (subst ham_heis_unfold) (simp add: ebind_def)
  ultimately show ?thesis
    using HP(3) by (simp add: todense_def)
qed

text \<open>
  C2, amended. For every \<open>n \<ge> 2\<close> the three terms of lines 141 to 143 are added exactly
  when \<open>periodic\<close> is set; no test on \<open>n\<close> guards them. With \<open>H\<close> the accumulator after
  the loop and \<open>P\<close> the accumulator after those lines, the rows of \<open>P\<close> are the rows of
  \<open>H\<close> plus \<open>X\<close> on sites 0 and \<open>n - 1\<close>, plus \<open>Y\<close> on sites 0 and \<open>n - 1\<close>, plus \<open>Z\<close>
  on sites 0 and \<open>n - 1\<close>, each with the identity on the sites between; \<open>P\<close> differs from
  \<open>H\<close>; the periodic result is \<open>P\<close> and the open result is \<open>H\<close> (each converted to the
  requested format). This includes \<open>n = 2\<close>, where the pair (0, 1) is coupled a second
  time.
\<close>

theorem ham_heis_periodic_adds_terms:
  assumes "2 \<le> n"
  shows "\<exists>H P. ham_heis n jx jy jz bz False True = Inr H
           \<and> heis_periodic n (replicate (nat n) 2) H = Inr P
           \<and> is_sparse H \<and> is_sparse P
           \<and> rows P = add_rows (add_rows (add_rows (rows H)
                          (boundary_term (nat n) pauli_X))
                          (boundary_term (nat n) pauli_Y))
                          (boundary_term (nat n) pauli_Z)
           \<and> rows P \<noteq> rows H
           \<and> ham_heis n jx jy jz bz periodic sparse =
               Inr (if \<not> sparse then todense (if periodic then P else H)
                    else (if periodic then P else H))"
proof -
  obtain H P where HP: "ham_heis n jx jy jz bz False True = Inr H"
      "heis_periodic n (replicate (nat n) 2) H = Inr P"
      "is_sparse H" "is_sparse P"
      "rows P = add_rows (add_rows (add_rows (rows H)
                   (boundary_term (nat n) pauli_X))
                   (boundary_term (nat n) pauli_Y))
                   (boundary_term (nat n) pauli_Z)"
      "rows P \<noteq> rows H"
    using periodic_differs[OF assms, of jx jy jz bz] by blast
  have "ham_heis n jx jy jz bz periodic sparse =
          Inr (if \<not> sparse then todense (if periodic then P else H)
               else (if periodic then P else H))"
    by (subst ham_heis_unfold) (simp add: HP(1,2) ebind_def)
  then show ?thesis
    using HP by blast
qed

theorem ham_heis_periodic_adds_terms_witness:
  "(2::int) \<le> 2 \<and> (\<exists>H P. ham_heis 2 1 1 1 0 False True = Inr H
      \<and> heis_periodic 2 (replicate (nat 2) 2) H = Inr P
      \<and> is_sparse H \<and> is_sparse P
      \<and> rows P = add_rows (add_rows (add_rows (rows H)
                     (boundary_term (nat 2) pauli_X))
                     (boundary_term (nat 2) pauli_Y))
                     (boundary_term (nat 2) pauli_Z)
      \<and> rows P \<noteq> rows H
      \<and> ham_heis 2 1 1 1 0 True False = Inr (todense P))"
  using ham_heis_periodic_adds_terms [of 2 1 1 1 0 True False]
  by simp

subsection \<open>Hermiticity, dimension, output format\<close>

text \<open>
  C4. For every \<open>n \<ge> 1\<close>, all real couplings and fields and both values of \<open>periodic\<close>
  and \<open>sparse\<close>, the matrix \<^verbatim>\<open>ham_heis\<close> returns equals its own conjugate transpose.
  A matrix is returned whenever \<open>n \<ge> 2\<close> or the chain is open.
\<close>

theorem ham_heis_hermitian:
  assumes "1 \<le> n"
  shows "(\<forall>H. ham_heis n jx jy jz bz periodic sparse = Inr H \<longrightarrow> hermitian (rows H))
       \<and> (2 \<le> n \<or> \<not> periodic \<longrightarrow> (\<exists>H. ham_heis n jx jy jz bz periodic sparse = Inr H))"
proof (intro conjI allI impI)
  fix H assume "ham_heis n jx jy jz bz periodic sparse = Inr H"
  then have "herm (rows H)"
    using ham_heis_any_result[OF assms] by blast
  then show "hermitian (rows H)"
    by (simp add: hermitian_def herm_dagger)
next
  assume "2 \<le> n \<or> \<not> periodic"
  then show "\<exists>H. ham_heis n jx jy jz bz periodic sparse = Inr H"
    using ham_heis_result[OF assms, of periodic jx jy jz bz sparse] by blast
qed

theorem ham_heis_hermitian_witness:
  "(1::int) \<le> 2 \<and> (\<exists>H. ham_heis 2 1 1 1 0 True False = Inr H \<and> hermitian (rows H))"
  using ham_heis_hermitian [of 2 1 1 1 0 True False]
  by auto

text \<open>
  C5. For every \<open>n \<ge> 1\<close>, all real couplings and fields and both values of \<open>periodic\<close>
  and \<open>sparse\<close>, the matrix \<^verbatim>\<open>ham_heis\<close> returns has \<open>2 ^ n\<close> rows of \<open>2 ^ n\<close>
  entries. A matrix is returned whenever \<open>n \<ge> 2\<close> or the chain is open.
\<close>

theorem ham_heis_dimension:
  assumes "1 \<le> n"
  shows "(\<forall>H. ham_heis n jx jy jz bz periodic sparse = Inr H \<longrightarrow> square (2 ^ nat n) (rows H))
       \<and> (2 \<le> n \<or> \<not> periodic \<longrightarrow> (\<exists>H. ham_heis n jx jy jz bz periodic sparse = Inr H))"
proof (intro conjI allI impI)
  fix H assume "ham_heis n jx jy jz bz periodic sparse = Inr H"
  then have "herm (rows H) \<and> length (rows H) = 2 ^ nat n"
    using ham_heis_any_result[OF assms] by blast
  then show "square (2 ^ nat n) (rows H)"
    using square_herm[of "rows H"] by simp
next
  assume "2 \<le> n \<or> \<not> periodic"
  then show "\<exists>H. ham_heis n jx jy jz bz periodic sparse = Inr H"
    using ham_heis_result[OF assms, of periodic jx jy jz bz sparse] by blast
qed

theorem ham_heis_dimension_witness:
  "(1::int) \<le> 3 \<and> (\<exists>H. ham_heis 3 1 1 1 0 True True = Inr H \<and> square 8 (rows H))"
  using ham_heis_dimension [of 3 1 1 1 0 True True]
  by auto

text \<open>
  C6. The dense and the sparse output for the same parameters hold the same matrix: the
  accumulated operator \<open>S\<close> is in sparse form in both modes, the sparse mode returns it as
  it is and the dense mode returns it converted, with the same rows. When the accumulation
  raises, it raises the same error in both modes.
\<close>

theorem ham_heis_dense_sparse:
  "(case ham_heis n jx jy jz bz periodic True of
      Inl e \<Rightarrow> ham_heis n jx jy jz bz periodic False = Inl e
    | Inr S \<Rightarrow> is_sparse S
         \<and> ham_heis n jx jy jz bz periodic False = Inr (todense S)
         \<and> rows (todense S) = rows S \<and> \<not> is_sparse (todense S))"
proof (cases "ham_heis n jx jy jz bz periodic True")
  case (Inl e)
  then have "ham_heis n jx jy jz bz periodic False = Inl e"
    by (cases periodic) (auto simp: ham_heis_def ebind_def Let_def split: sum.splits)
  then show ?thesis
    using Inl by simp
next
  case (Inr S)
  then have "ham_heis n jx jy jz bz periodic False = Inr (todense S)"
    by (cases periodic) (auto simp: ham_heis_def ebind_def Let_def split: sum.splits)
  then show ?thesis
    using Inr ham_heis_acc_sparse[OF Inr] by (simp add: todense_def)
qed

end
